theory Spec2Isabelle
  imports Main
begin

section \<open>Rule L036: layout of select targets\<close>

text \<open>
  Shallow embedding of \<^verbatim>\<open>src/sqlfluff/core/rules/std/L036.py\<close>.  The rule looks at
  one \<^verbatim>\<open>select_clause\<close> segment, scans its direct children for a few landmarks
  (\<^verbatim>\<open>_get_indexes\<close>) and decides from them whether a newline has to be created
  or deleted.
\<close>

subsection \<open>Segments of the parse tree\<close>

text \<open>
  \<^verbatim>\<open>BaseSegment\<close> is imported by the rule, its declaration is not part of the
  sources.  The rule reads five things of a segment: its type tag (through
  \<^verbatim>\<open>is_type\<close>), its \<^verbatim>\<open>name\<close>, its child list \<^verbatim>\<open>segments\<close>, its
  \<^verbatim>\<open>raw\<close> text and its \<^verbatim>\<open>pos_marker\<close>.  The position marker stays abstract
  (type \<open>'p\<close>).
\<close>

datatype 'p segment =
  Segment (seg_type: string) (name: "string option")
    (segments: "'p segment list") (raw: string) (pos_marker: 'p)

text \<open>
  Modelled from the spec: \<^verbatim>\<open>BaseSegment.is_type\<close> is missing from the sources; the
  spec describes it as the lookup of the node's one stable kind tag.
\<close>

definition is_type :: "'p segment \<Rightarrow> string \<Rightarrow> bool" where
  "is_type seg t = (seg_type seg = t)"

text \<open>
  Modelled from the spec: \<^verbatim>\<open>BaseCrawler.make_newline\<close> is missing from the sources;
  the spec says it builds a new node of kind \<^verbatim>\<open>newline\<close> carrying the position
  it is given.  The node is a leaf whose text is one line feed.
\<close>

definition make_newline :: "'p \<Rightarrow> 'p segment" where
  "make_newline pos = Segment ''newline'' (Some ''newline'') [] [CHR 0x0A] pos"

text \<open>
  Modelled from the spec: \<^verbatim>\<open>pos_marker.advance_by\<close> is missing from the sources.
  The decision functions take it as a parameter; where a concrete marker is
  needed, it is a character offset advanced by the length of the text.
\<close>

definition advance_by_chars :: "nat \<Rightarrow> string \<Rightarrow> nat" where
  "advance_by_chars pos txt = pos + length txt"

subsection \<open>Results of the rule\<close>

record 'p EvalResult =
  cnt_select_targets :: int
  select_idx :: int
  first_new_line_idx :: int
  first_select_target_idx :: int
  first_whitespace_idx :: int
  select_targets :: "'p segment list"

text \<open>
  \<^verbatim>\<open>LintFix(edit_type, anchor, edit=None)\<close> and
  \<^verbatim>\<open>LintResult(anchor=..., fixes=...)\<close>, as the rule builds them.
\<close>

datatype 'p LintFix =
  LintFix (edit_type: string) (fix_anchor: "'p segment") (edit: "'p segment option")

datatype 'p LintResult =
  LintResult (anchor: "'p segment") (lint_fixes: "'p LintFix list")

datatype error = IndexError

text \<open>
  Subscripting a Python list: an index below zero counts from the end, and an
  index outside \<open>-n \<dots> n - 1\<close> raises.
\<close>

definition subscript :: "'a list \<Rightarrow> int \<Rightarrow> error + 'a" where
  "subscript xs i =
     (if 0 \<le> i \<and> i < int (length xs) then Inr (xs ! nat i)
      else if i < 0 \<and> - int (length xs) \<le> i then Inr (xs ! nat (int (length xs) + i))
      else Inl IndexError)"

subsection \<open>The landmark scan\<close>

text \<open>
  One round of the loop of \<^verbatim>\<open>_get_indexes\<close>: the four \<^verbatim>\<open>if\<close> statements in
  the order of the source, each reading what the ones before it wrote.
\<close>

definition scan_step :: "int \<Rightarrow> 'p segment \<Rightarrow> 'p EvalResult \<Rightarrow> 'p EvalResult" where
  "scan_step fname_idx seg r =
     (let r1 = (if is_type seg ''select_target_element''
                then (let r0 = r\<lparr>select_targets := select_targets r @ [seg],
                                  cnt_select_targets := cnt_select_targets r + 1\<rparr>
                      in if first_select_target_idx r0 = - 1
                         then r0\<lparr>first_select_target_idx := fname_idx\<rparr> else r0)
                else r);
          r2 = (if is_type seg ''keyword'' \<and> name seg = Some ''SELECT'' \<and> select_idx r1 = - 1
                then r1\<lparr>select_idx := fname_idx\<rparr> else r1);
          r3 = (if is_type seg ''newline'' \<and> first_new_line_idx r2 = - 1
                then r2\<lparr>first_new_line_idx := fname_idx\<rparr> else r2);
          r4 = (if is_type seg ''whitespace'' \<and> first_new_line_idx r3 \<noteq> - 1
                   \<and> first_whitespace_idx r3 = - 1
                then r3\<lparr>first_whitespace_idx := fname_idx\<rparr> else r3)
      in r4)"

text \<open>The loop over \<^verbatim>\<open>enumerate(segment.segments)\<close>, from index \<open>i\<close> on.\<close>

fun scan_from :: "int \<Rightarrow> 'p segment list \<Rightarrow> 'p EvalResult \<Rightarrow> 'p EvalResult" where
  "scan_from i [] r = r"
| "scan_from i (seg # rest) r = scan_from (i + 1) rest (scan_step i seg r)"

definition initial_result :: "'p EvalResult" where
  "initial_result =
     \<lparr>cnt_select_targets = 0, select_idx = - 1, first_new_line_idx = - 1,
      first_select_target_idx = - 1, first_whitespace_idx = - 1, select_targets = []\<rparr>"

definition get_indexes :: "'p segment \<Rightarrow> 'p EvalResult" where
  "get_indexes segment = scan_from 0 (segments segment) initial_result"

subsection \<open>The decision\<close>

definition eval_multiple_select_target_elements ::
  "('p \<Rightarrow> string \<Rightarrow> 'p) \<Rightarrow> 'p EvalResult \<Rightarrow> 'p segment \<Rightarrow> error + 'p LintResult option" where
  "eval_multiple_select_target_elements advance_by eval_result segment =
     (if first_new_line_idx eval_result = - 1
      then (let ins = make_newline (advance_by (pos_marker segment) (raw segment))
            in case subscript (select_targets eval_result) 0 of
                 Inl e \<Rightarrow> Inl e
               | Inr target \<Rightarrow> Inr (Some (LintResult segment [LintFix ''create'' target (Some ins)])))
      else Inr None)"

text \<open>
  The nested loops that set \<^verbatim>\<open>is_wildcard\<close>: some child of the clause is a select
  target and has a child of type \<^verbatim>\<open>wildcard_expression\<close>.
\<close>

definition is_wildcard :: "'p segment \<Rightarrow> bool" where
  "is_wildcard select_clause =
     list_ex (\<lambda>segment. is_type segment ''select_target_element'' \<and>
                list_ex (\<lambda>sub_segment. is_type sub_segment ''wildcard_expression'')
                  (segments segment))
       (segments select_clause)"

definition eval_single_select_target_element ::
  "'p EvalResult \<Rightarrow> 'p segment \<Rightarrow> error + 'p LintResult option" where
  "eval_single_select_target_element eval_result select_clause =
     (if is_wildcard select_clause then Inr None
      else if select_idx eval_result < first_new_line_idx eval_result
              \<and> first_new_line_idx eval_result < first_select_target_idx eval_result
      then (case subscript (segments select_clause) (first_new_line_idx eval_result) of
              Inl e \<Rightarrow> Inl e
            | Inr nl \<Rightarrow> Inr (Some (LintResult select_clause [LintFix ''delete'' nl None])))
      else Inr None)"

text \<open>
  \<^verbatim>\<open>_eval\<close>; a Python function that falls off its end returns \<^verbatim>\<open>None\<close>.  The
  argument \<^verbatim>\<open>raw_stack\<close> is never read and is left out.
\<close>

definition eval :: "('p \<Rightarrow> string \<Rightarrow> 'p) \<Rightarrow> 'p segment \<Rightarrow> error + 'p LintResult option" where
  "eval advance_by segment =
     (if is_type segment ''select_clause''
      then (let eval_result = get_indexes segment
            in if cnt_select_targets eval_result = 1
               then eval_single_select_target_element eval_result segment
               else if cnt_select_targets eval_result > 1
               then eval_multiple_select_target_elements advance_by eval_result segment
               else Inr None)
      else Inr None)"

subsection \<open>The landmarks in the words of the specification\<close>

text \<open>Index of the first element that satisfies \<open>P\<close>, or \<open>-1\<close> for "absent".\<close>

definition first_index :: "('a \<Rightarrow> bool) \<Rightarrow> 'a list \<Rightarrow> int" where
  "first_index P xs =
     (if list_ex P xs then int (length (takeWhile (\<lambda>x. \<not> P x) xs)) else - 1)"

definition is_target :: "'p segment \<Rightarrow> bool" where
  "is_target seg = (seg_type seg = ''select_target_element'')"

definition is_select_keyword :: "'p segment \<Rightarrow> bool" where
  "is_select_keyword seg = (seg_type seg = ''keyword'' \<and> name seg = Some ''SELECT'')"

definition is_newline :: "'p segment \<Rightarrow> bool" where
  "is_newline seg = (seg_type seg = ''newline'')"

definition is_whitespace :: "'p segment \<Rightarrow> bool" where
  "is_whitespace seg = (seg_type seg = ''whitespace'')"

text \<open>
  Index of the first whitespace child that comes after a newline child, or
  \<open>-1\<close>: the first whitespace behind the first newline.
\<close>

definition first_whitespace_after_newline :: "'p segment list \<Rightarrow> int" where
  "first_whitespace_after_newline kids =
     (let n = first_index is_newline kids
      in if n = - 1 then - 1
         else (let w = first_index is_whitespace (drop (nat n + 1) kids)
               in if w = - 1 then - 1 else n + 1 + w))"

definition landmark_summary :: "'p segment \<Rightarrow> 'p EvalResult" where
  "landmark_summary clause =
     \<lparr>cnt_select_targets = int (length (filter is_target (segments clause))),
      select_idx = first_index is_select_keyword (segments clause),
      first_new_line_idx = first_index is_newline (segments clause),
      first_select_target_idx = first_index is_target (segments clause),
      first_whitespace_idx = first_whitespace_after_newline (segments clause),
      select_targets = filter is_target (segments clause)\<rparr>"

definition is_wildcard_expression :: "'p segment \<Rightarrow> bool" where
  "is_wildcard_expression seg = (seg_type seg = ''wildcard_expression'')"

text \<open>Some direct child of a select target is a wildcard expression.\<close>

definition target_has_wildcard :: "'p segment \<Rightarrow> bool" where
  "target_has_wildcard t = list_ex is_wildcard_expression (segments t)"

subsection \<open>Applying an edit to a child list\<close>

text \<open>
  Modelled from the spec: the engine that applies a \<^verbatim>\<open>LintFix\<close> is missing from
  the sources.  The spec describes its two edits on the clause's child list:
  a delete removes the anchored child, a create puts the new node immediately
  before its anchor.  The anchored child is given by its index.
\<close>

definition delete_at :: "nat \<Rightarrow> 'a list \<Rightarrow> 'a list" where
  "delete_at i xs = take i xs @ drop (Suc i) xs"

definition insert_before :: "nat \<Rightarrow> 'a \<Rightarrow> 'a list \<Rightarrow> 'a list" where
  "insert_before i x xs = take i xs @ x # drop i xs"

subsection \<open>The kind of an outcome\<close>

text \<open>
  What two outcomes on different clauses can share: whether the rule raised,
  found no issue, or flagged the clause, and with which kinds of edit.
\<close>

definition outcome_shape :: "error + 'p LintResult option \<Rightarrow> error + string list option" where
  "outcome_shape res =
     (case res of
        Inl e \<Rightarrow> Inl e
      | Inr None \<Rightarrow> Inr None
      | Inr (Some lr) \<Rightarrow> Inr (Some (map edit_type (lint_fixes lr))))"

subsection \<open>Sample segments\<close>

text \<open>
  Clauses as the parser builds them for the scenarios of the specification,
  with a character offset as position marker.
\<close>

definition select_keyword :: "nat \<Rightarrow> nat segment" where
  "select_keyword p = Segment ''keyword'' (Some ''SELECT'') [] ''SELECT'' p"

definition leaf :: "string \<Rightarrow> string \<Rightarrow> nat \<Rightarrow> nat segment" where
  "leaf t txt p = Segment t None [] txt p"

definition newline_at :: "nat \<Rightarrow> nat segment" where
  "newline_at p = Segment ''newline'' (Some ''newline'') [] [CHR 0x0A] p"

definition whitespace_at :: "nat \<Rightarrow> nat segment" where
  "whitespace_at p = Segment ''whitespace'' (Some ''whitespace'') [] '' '' p"

definition target :: "nat segment list \<Rightarrow> string \<Rightarrow> nat \<Rightarrow> nat segment" where
  "target kids txt p = Segment ''select_target_element'' None kids txt p"

definition column :: "string \<Rightarrow> nat \<Rightarrow> nat segment" where
  "column txt p = target [leaf ''column_reference'' txt p] txt p"

definition clause :: "nat segment list \<Rightarrow> string \<Rightarrow> nat segment" where
  "clause kids txt = Segment ''select_clause'' None kids txt 0"

text \<open>Scenarios A to E of the specification.\<close>

definition scenario_A :: "nat segment" where
  "scenario_A = clause [select_keyword 0, whitespace_at 6, column ''a'' 7] ''SELECT a''"

definition scenario_B :: "nat segment" where
  "scenario_B =
     clause [select_keyword 0, newline_at 6, target [leaf ''wildcard_expression'' ''*'' 7] ''*'' 7]
       (''SELECT'' @ [CHR 0x0A] @ ''*'')"

definition scenario_C :: "nat segment" where
  "scenario_C =
     clause [select_keyword 0, newline_at 6, column ''a'' 7] (''SELECT'' @ [CHR 0x0A] @ ''a'')"

definition scenario_D :: "nat segment" where
  "scenario_D =
     clause [select_keyword 0, whitespace_at 6, column ''a'' 7, leaf ''comma'' '','' 8,
       column ''b'' 9] ''SELECT a,b''"

definition scenario_E :: "nat segment" where
  "scenario_E =
     clause [select_keyword 0, newline_at 6, column ''a'' 7, leaf ''comma'' '','' 8,
       newline_at 9, column ''b'' 10] (''SELECT'' @ [CHR 0x0A] @ ''a,'' @ [CHR 0x0A] @ ''b'')"

text \<open>A single target whose wildcard sits inside a function call.\<close>

definition nested_wildcard :: "nat segment" where
  "nested_wildcard =
     clause [select_keyword 0, newline_at 6,
       target [Segment ''function'' None [leaf ''wildcard_expression'' ''*'' 13] ''count(*)'' 7]
         ''count(*)'' 7] (''SELECT'' @ [CHR 0x0A] @ ''count(*)'')"

text \<open>Two newlines between the keyword and a single target.\<close>

definition two_newlines :: "nat segment" where
  "two_newlines =
     clause [select_keyword 0, newline_at 6, newline_at 7, column ''a'' 8]
       (''SELECT'' @ [CHR 0x0A, CHR 0x0A] @ ''a'')"

text \<open>A newline and a single target, and no SELECT keyword.\<close>

definition no_keyword :: "nat segment" where
  "no_keyword = clause [newline_at 0, column ''a'' 1] ([CHR 0x0A] @ ''a'')"

text \<open>An index found in a suffix that starts at \<open>i\<close>, as an index of the whole list.\<close>

definition shift :: "int \<Rightarrow> int \<Rightarrow> int" where
  "shift i k = (if k = - 1 then - 1 else i + k)"

section \<open>The scan computes the landmarks\<close>

lemma first_index_Nil: "first_index P [] = - 1"
  by (simp add: first_index_def)


lemma first_index_ge: "- 1 \<le> first_index P xs"
  by (simp add: first_index_def)

lemma first_index_absent: "first_index P xs = - 1 \<longleftrightarrow> \<not> list_ex P xs"
  by (simp add: first_index_def)

lemma first_index_Cons:
  "first_index P (x # xs) = (if P x then 0 else shift 1 (first_index P xs))"
  by (simp add: first_index_def shift_def)

lemma shift_shift: "0 \<le> i \<Longrightarrow> - 1 \<le> k \<Longrightarrow> shift i (shift 1 k) = shift (i + 1) k"
  by (auto simp: shift_def)

lemma shift_zero: "shift 0 k = k"
  by (simp add: shift_def)

lemma fwan_Nil: "first_whitespace_after_newline [] = - 1"
  by (simp add: first_whitespace_after_newline_def first_index_def)

lemma fwan_Cons:
  "first_whitespace_after_newline (x # xs) =
     (if is_newline x then shift 1 (first_index is_whitespace xs)
      else shift 1 (first_whitespace_after_newline xs))"
proof (cases "is_newline x")
  case True
  then show ?thesis
    by (simp add: first_whitespace_after_newline_def first_index_Cons shift_def)
next
  case False
  show ?thesis
  proof (cases "first_index is_newline xs = - 1")
    case True
    with False show ?thesis
      by (simp add: first_whitespace_after_newline_def first_index_Cons shift_def)
  next
    case nl: False
    have ge: "0 \<le> first_index is_newline xs"
      using nl first_index_ge [of is_newline xs] by arith
    then have "nat (1 + first_index is_newline xs) = Suc (nat (first_index is_newline xs))"
      by arith
    with False nl ge
      first_index_ge [of is_whitespace "drop (Suc (nat (first_index is_newline xs))) xs"]
    show ?thesis
      by (simp add: first_whitespace_after_newline_def first_index_Cons shift_def Let_def)
  qed
qed

lemma fwan_ge: "- 1 \<le> first_whitespace_after_newline xs"
  using first_index_ge [of is_newline xs] first_index_ge [of is_whitespace "drop (nat (first_index is_newline xs) + 1) xs"]
  by (simp add: first_whitespace_after_newline_def Let_def)

lemma step_cnt:
  "cnt_select_targets (scan_step i x r) = cnt_select_targets r + (if is_target x then 1 else 0)"
  by (simp add: scan_step_def Let_def is_type_def is_target_def)

lemma step_targets:
  "select_targets (scan_step i x r) = select_targets r @ (if is_target x then [x] else [])"
  by (simp add: scan_step_def Let_def is_type_def is_target_def)

lemma step_target_idx:
  "first_select_target_idx (scan_step i x r) =
     (if is_target x \<and> first_select_target_idx r = - 1 then i else first_select_target_idx r)"
  by (simp add: scan_step_def Let_def is_type_def is_target_def)

lemma step_select_idx:
  "select_idx (scan_step i x r) =
     (if is_select_keyword x \<and> select_idx r = - 1 then i else select_idx r)"
  by (simp add: scan_step_def Let_def is_type_def is_select_keyword_def)

lemma step_new_line_idx:
  "first_new_line_idx (scan_step i x r) =
     (if is_newline x \<and> first_new_line_idx r = - 1 then i else first_new_line_idx r)"
  by (simp add: scan_step_def Let_def is_type_def is_newline_def)

lemma step_whitespace_idx:
  "0 \<le> i \<Longrightarrow> first_whitespace_idx (scan_step i x r) =
     (if is_whitespace x \<and> first_new_line_idx r \<noteq> - 1 \<and> first_whitespace_idx r = - 1
      then i else first_whitespace_idx r)"
  by (auto simp add: scan_step_def Let_def is_type_def is_whitespace_def)

lemma scan_cnt:
  "cnt_select_targets (scan_from i xs r) = cnt_select_targets r + int (length (filter is_target xs))"
  by (induction xs arbitrary: i r) (simp_all add: step_cnt)

lemma scan_targets:
  "select_targets (scan_from i xs r) = select_targets r @ filter is_target xs"
  by (induction xs arbitrary: i r) (simp_all add: step_targets)

lemma scan_target_idx:
  "0 \<le> i \<Longrightarrow> first_select_target_idx (scan_from i xs r) =
     (if first_select_target_idx r \<noteq> - 1 then first_select_target_idx r
      else shift i (first_index is_target xs))"
proof (induction xs arbitrary: i r)
  case Nil
  then show ?case by (simp add: first_index_Nil shift_def)
next
  case (Cons x xs)
  from Cons.prems have "0 \<le> i + 1" by simp
  from Cons.IH [OF this] Cons.prems first_index_ge [of is_target xs] show ?case
    by (simp add: step_target_idx first_index_Cons shift_shift) (simp add: shift_def)
qed

lemma scan_select_idx:
  "0 \<le> i \<Longrightarrow> select_idx (scan_from i xs r) =
     (if select_idx r \<noteq> - 1 then select_idx r
      else shift i (first_index is_select_keyword xs))"
proof (induction xs arbitrary: i r)
  case Nil
  then show ?case by (simp add: first_index_Nil shift_def)
next
  case (Cons x xs)
  from Cons.prems have "0 \<le> i + 1" by simp
  from Cons.IH [OF this] Cons.prems first_index_ge [of is_select_keyword xs] show ?case
    by (simp add: step_select_idx first_index_Cons shift_shift) (simp add: shift_def)
qed

lemma scan_new_line_idx:
  "0 \<le> i \<Longrightarrow> first_new_line_idx (scan_from i xs r) =
     (if first_new_line_idx r \<noteq> - 1 then first_new_line_idx r
      else shift i (first_index is_newline xs))"
proof (induction xs arbitrary: i r)
  case Nil
  then show ?case by (simp add: first_index_Nil shift_def)
next
  case (Cons x xs)
  from Cons.prems have "0 \<le> i + 1" by simp
  from Cons.IH [OF this] Cons.prems first_index_ge [of is_newline xs] show ?case
    by (simp add: step_new_line_idx first_index_Cons shift_shift) (simp add: shift_def)
qed

lemma newline_not_whitespace: "is_newline x \<Longrightarrow> \<not> is_whitespace x"
  by (simp add: is_newline_def is_whitespace_def)

lemma scan_whitespace_idx:
  "0 \<le> i \<Longrightarrow> first_whitespace_idx (scan_from i xs r) =
     (if first_whitespace_idx r \<noteq> - 1 then first_whitespace_idx r
      else if first_new_line_idx r \<noteq> - 1 then shift i (first_index is_whitespace xs)
      else shift i (first_whitespace_after_newline xs))"
proof (induction xs arbitrary: i r)
  case Nil
  then show ?case by (simp add: first_index_Nil fwan_Nil shift_def)
next
  case (Cons x xs)
  from Cons.prems have "0 \<le> i + 1" by simp
  from Cons.IH [OF this] Cons.prems first_index_ge [of is_whitespace xs] fwan_ge [of xs]
  show ?case
    by (simp add: step_whitespace_idx step_new_line_idx first_index_Cons fwan_Cons
        shift_shift newline_not_whitespace) (auto simp add: shift_def dest: newline_not_whitespace)
qed

lemma get_indexes_summary: "get_indexes c = landmark_summary c"
  by (simp add: get_indexes_def landmark_summary_def scan_cnt scan_targets scan_target_idx
      scan_select_idx scan_new_line_idx scan_whitespace_idx initial_result_def shift_zero
      EvalResult.equality)

lemma first_index_found:
  assumes "first_index P xs \<noteq> - 1"
  shows "0 \<le> first_index P xs" and "first_index P xs < int (length xs)"
    and "P (xs ! nat (first_index P xs))"
proof -
  let ?pre = "takeWhile (\<lambda>x. \<not> P x) xs"
  from assms have ex: "list_ex P xs" by (simp add: first_index_absent)
  then have k: "first_index P xs = int (length ?pre)"
    by (simp add: first_index_def)
  have "length ?pre \<noteq> length xs"
  proof
    assume "length ?pre = length xs"
    then have "?pre = xs"
      by (metis takeWhile_eq_take take_all order_refl)
    then have "\<forall>x\<in>set xs. \<not> P x" by simp
    with ex show False by (simp add: list_ex_iff)
  qed
  with length_takeWhile_le [of "\<lambda>x. \<not> P x" xs] have lt: "length ?pre < length xs" by simp
  show "0 \<le> first_index P xs" using k by simp
  show "first_index P xs < int (length xs)" using k lt by simp
  show "P (xs ! nat (first_index P xs))" using k nth_length_takeWhile [OF lt] by simp
qed

lemma first_index_least:
  assumes "j < nat (first_index P xs)"
  shows "\<not> P (xs ! j)"
proof -
  let ?pre = "takeWhile (\<lambda>x. \<not> P x) xs"
  from assms have "first_index P xs \<noteq> - 1" by auto
  then have "list_ex P xs" by (simp add: first_index_absent)
  then have k: "first_index P xs = int (length ?pre)"
    by (simp add: first_index_def)
  with assms have j: "j < length ?pre" by simp
  then have "?pre ! j \<in> set ?pre" by (rule nth_mem)
  then have "\<not> P (?pre ! j)" by (rule set_takeWhileD [THEN conjunct2])
  with j show ?thesis by (simp add: takeWhile_nth)
qed

lemmas sample_defs = select_keyword_def leaf_def newline_at_def whitespace_at_def target_def
  column_def clause_def scenario_A_def scenario_B_def scenario_C_def scenario_D_def
  scenario_E_def
  nested_wildcard_def two_newlines_def no_keyword_def

lemmas run_defs = eval_def get_indexes_def scan_step_def initial_result_def is_type_def
  eval_single_select_target_element_def eval_multiple_select_target_elements_def
  is_wildcard_def subscript_def make_newline_def advance_by_chars_def Let_def

lemmas landmark_defs = landmark_summary_def first_index_def first_whitespace_after_newline_def
  is_target_def is_select_keyword_def is_newline_def is_whitespace_def
  is_wildcard_expression_def target_has_wildcard_def

section \<open>The decision in terms of the children\<close>

lemma subscript_in_range:
  "0 \<le> i \<Longrightarrow> i < int (length xs) \<Longrightarrow> subscript xs i = Inr (xs ! nat i)"
  by (simp add: subscript_def)

lemma subscript_first: "xs \<noteq> [] \<Longrightarrow> subscript xs 0 = Inr (hd xs)"
  by (cases xs) (simp_all add: subscript_def)

lemma list_ex_filter: "list_ex P xs \<longleftrightarrow> filter P xs \<noteq> []"
  by (auto simp: list_ex_iff filter_empty_conv)

lemma hd_filter_first_index:
  "filter P xs \<noteq> [] \<Longrightarrow> hd (filter P xs) = xs ! nat (first_index P xs)"
proof (induction xs)
  case Nil
  then show ?case by simp
next
  case (Cons x xs)
  show ?case
  proof (cases "P x")
    case True
    then show ?thesis by (simp add: first_index_Cons)
  next
    case False
    with Cons.prems have ne: "filter P xs \<noteq> []" by simp
    then have found: "first_index P xs \<noteq> - 1"
      by (simp add: first_index_absent list_ex_filter)
    with first_index_ge [of P xs] have "0 \<le> first_index P xs" by arith
    then have "nat (1 + first_index P xs) = Suc (nat (first_index P xs))" by arith
    with False Cons.IH [OF ne] found show ?thesis
      by (simp add: first_index_Cons shift_def)
  qed
qed

lemma eval_by_landmarks:
  "eval adv c =
     (if is_type c ''select_clause''
      then (if cnt_select_targets (landmark_summary c) = 1
            then eval_single_select_target_element (landmark_summary c) c
            else if cnt_select_targets (landmark_summary c) > 1
            then eval_multiple_select_target_elements adv (landmark_summary c) c
            else Inr None)
      else Inr None)"
  by (simp add: eval_def get_indexes_summary Let_def)

lemma eval_multiple_by_children:
  assumes "filter is_target (segments c) \<noteq> []"
  shows "eval_multiple_select_target_elements adv (landmark_summary c) c =
     (if list_ex is_newline (segments c) then Inr None
      else Inr (Some (LintResult c [LintFix ''create'' (hd (filter is_target (segments c)))
             (Some (make_newline (adv (pos_marker c) (raw c))))])))"
  using assms
  by (simp add: eval_multiple_select_target_elements_def landmark_summary_def
      first_index_absent subscript_first Let_def)

lemma first_newline_valid:
  assumes "select_idx (landmark_summary c) < first_new_line_idx (landmark_summary c)"
  shows "0 \<le> first_index is_newline (segments c)"
    and "first_index is_newline (segments c) < int (length (segments c))"
    and "is_newline (segments c ! nat (first_index is_newline (segments c)))"
proof -
  from assms first_index_ge [of is_select_keyword "segments c"]
  have "first_index is_newline (segments c) \<noteq> - 1"
    by (simp add: landmark_summary_def)
  from first_index_found [OF this]
  show "0 \<le> first_index is_newline (segments c)"
    and "first_index is_newline (segments c) < int (length (segments c))"
    and "is_newline (segments c ! nat (first_index is_newline (segments c)))" .
qed

lemma eval_single_by_children:
  "eval_single_select_target_element (landmark_summary c) c =
     (if is_wildcard c then Inr None
      else if first_index is_select_keyword (segments c) < first_index is_newline (segments c)
            \<and> first_index is_newline (segments c) < first_index is_target (segments c)
      then Inr (Some (LintResult c
             [LintFix ''delete'' (segments c ! nat (first_index is_newline (segments c))) None]))
      else Inr None)"
proof (cases "select_idx (landmark_summary c) < first_new_line_idx (landmark_summary c)")
  case True
  from first_newline_valid(1,2) [OF True]
  have "subscript (segments c) (first_index is_newline (segments c)) =
      Inr (segments c ! nat (first_index is_newline (segments c)))"
    by (rule subscript_in_range)
  then show ?thesis
    by (simp add: eval_single_select_target_element_def landmark_summary_def)
next
  case False
  then show ?thesis
    by (simp add: eval_single_select_target_element_def landmark_summary_def)
qed

lemma is_wildcard_by_targets:
  "is_wildcard c = list_ex target_has_wildcard (filter is_target (segments c))"
  by (auto simp add: is_wildcard_def is_type_def target_has_wildcard_def is_target_def
      is_wildcard_expression_def list_ex_iff)

lemma cnt_landmark:
  "cnt_select_targets (landmark_summary c) = int (length (filter is_target (segments c)))"
  by (simp add: landmark_summary_def)

lemma filter_insert_before:
  assumes "\<not> P x"
  shows "filter P (insert_before i x xs) = filter P xs"
proof -
  have "filter P (take i xs) @ filter P (drop i xs) = filter P (take i xs @ drop i xs)"
    by (simp only: filter_append)
  also have "\<dots> = filter P xs"
    by (simp only: append_take_drop_id)
  finally show ?thesis
    using assms by (simp add: insert_before_def)
qed

lemma list_ex_insert_before: "P x \<Longrightarrow> list_ex P (insert_before i x xs)"
  by (simp add: insert_before_def list_ex_iff)

lemma make_newline_kind:
  "is_newline (make_newline p)" "\<not> is_target (make_newline p)"
  "is_type (make_newline p) ''newline''" "pos_marker (make_newline p) = p"
  by (simp_all add: make_newline_def is_newline_def is_target_def is_type_def)

lemma is_wildcard_single_target:
  assumes "length (filter is_target (segments c)) = 1"
  shows "is_wildcard c = target_has_wildcard (hd (filter is_target (segments c)))"
proof -
  from assms obtain t where "filter is_target (segments c) = [t]"
    by (cases "filter is_target (segments c)") auto
  then show ?thesis by (simp add: is_wildcard_by_targets)
qed

lemma list_ex_newline_landmark:
  "list_ex is_newline (segments c) \<longleftrightarrow> first_new_line_idx (landmark_summary c) \<noteq> - 1"
  by (simp add: landmark_summary_def first_index_absent)

lemma eval_single_ignores_whitespace_idx:
  "eval_single_select_target_element (r\<lparr>first_whitespace_idx := v\<rparr>) c =
   eval_single_select_target_element r c"
  by (simp add: eval_single_select_target_element_def)

lemma eval_multiple_ignores_whitespace_idx:
  "eval_multiple_select_target_elements adv (r\<lparr>first_whitespace_idx := v\<rparr>) c =
   eval_multiple_select_target_elements adv r c"
  by (simp add: eval_multiple_select_target_elements_def)

lemma outcome_shape_single:
  "outcome_shape (eval_single_select_target_element (landmark_summary c) c) =
     (if \<not> is_wildcard c
         \<and> select_idx (landmark_summary c) < first_new_line_idx (landmark_summary c)
         \<and> first_new_line_idx (landmark_summary c) < first_select_target_idx (landmark_summary c)
      then Inr (Some [''delete'']) else Inr None)"
  by (simp only: eval_single_by_children) (simp add: outcome_shape_def landmark_summary_def)

lemma outcome_shape_multiple:
  "1 < cnt_select_targets (landmark_summary c) \<Longrightarrow>
   outcome_shape (eval_multiple_select_target_elements adv (landmark_summary c) c) =
     (if first_new_line_idx (landmark_summary c) = - 1
      then Inr (Some [''create'']) else Inr None)"
proof -
  assume "1 < cnt_select_targets (landmark_summary c)"
  then have ne: "filter is_target (segments c) \<noteq> []" by (auto simp add: cnt_landmark)
  show ?thesis
    by (simp add: eval_multiple_by_children [OF ne] outcome_shape_def list_ex_newline_landmark)
qed

lemma outcome_shape_eval:
  "outcome_shape (eval adv c) =
     (if is_type c ''select_clause''
      then (if cnt_select_targets (landmark_summary c) = 1
            then (if \<not> is_wildcard c
                     \<and> select_idx (landmark_summary c) < first_new_line_idx (landmark_summary c)
                     \<and> first_new_line_idx (landmark_summary c)
                        < first_select_target_idx (landmark_summary c)
                  then Inr (Some [''delete'']) else Inr None)
            else if 1 < cnt_select_targets (landmark_summary c)
            then (if first_new_line_idx (landmark_summary c) = - 1
                  then Inr (Some [''create'']) else Inr None)
            else Inr None)
      else Inr None)"
proof -
  have none: "outcome_shape (Inr None) = Inr None" by (simp add: outcome_shape_def)
  show ?thesis
    by (simp add: eval_by_landmarks outcome_shape_single outcome_shape_multiple none)
qed

subsection \<open>Landmarks after a child is deleted\<close>

lemma shift_Suc: "0 \<le> m \<Longrightarrow> - 1 \<le> k \<Longrightarrow> shift 1 (shift m k) = shift (1 + m) k"
  by (auto simp: shift_def)

lemma first_index_append:
  "first_index P (xs @ ys) =
     (if list_ex P xs then first_index P xs
      else shift (int (length xs)) (first_index P ys))"
proof (induction xs)
  case Nil
  then show ?case by (simp add: shift_zero)
next
  case (Cons x xs)
  have "shift 1 (shift (int (length xs)) (first_index P ys)) =
      shift (1 + int (length xs)) (first_index P ys)"
    by (rule shift_Suc) (simp_all add: first_index_ge)
  with Cons.IH show ?case
    by (simp add: first_index_Cons)
qed

lemma first_index_in_prefix:
  assumes "0 \<le> first_index P (xs @ ys)" and "first_index P (xs @ ys) < int (length xs)"
  shows "list_ex P xs"
proof (rule ccontr)
  assume "\<not> list_ex P xs"
  then have "first_index P (xs @ ys) = shift (int (length xs)) (first_index P ys)"
    by (simp add: first_index_append)
  with assms first_index_ge [of P ys] show False
    by (auto simp: shift_def split: if_splits)
qed

lemma first_index_take_iff:
  "list_ex P (take m ys) \<longleftrightarrow> first_index P ys \<noteq> - 1 \<and> first_index P ys < int m"
proof
  assume ex: "list_ex P (take m ys)"
  have "first_index P (take m ys @ drop m ys) = first_index P (take m ys)"
    using ex by (simp only: first_index_append if_True)
  then have eq: "first_index P ys = first_index P (take m ys)" by simp
  from ex have found: "first_index P (take m ys) \<noteq> - 1" by (simp add: first_index_absent)
  from first_index_found(2) [OF found] have "first_index P (take m ys) < int m" by simp
  with eq found show "first_index P ys \<noteq> - 1 \<and> first_index P ys < int m" by simp
next
  assume h: "first_index P ys \<noteq> - 1 \<and> first_index P ys < int m"
  then have found: "first_index P ys \<noteq> - 1" by simp
  let ?j = "nat (first_index P ys)"
  from first_index_found [OF found] h have j: "?j < length ys" "?j < m" "P (ys ! ?j)"
    by simp_all
  then have "?j < length (take m ys)" "P (take m ys ! ?j)" by simp_all
  then have "\<exists>y\<in>set (take m ys). P y" by (metis nth_mem)
  then show "list_ex P (take m ys)" by (simp add: list_ex_iff)
qed

text \<open>
  The child list around its first newline: no newline before it, and the
  list with that child deleted.
\<close>

lemma split_at_first_index:
  assumes "first_index P xs \<noteq> - 1"
  shows "xs = take (nat (first_index P xs)) xs @ xs ! nat (first_index P xs)
           # drop (Suc (nat (first_index P xs))) xs"
    and "\<not> list_ex P (take (nat (first_index P xs)) xs)"
    and "length (take (nat (first_index P xs)) xs) = nat (first_index P xs)"
proof -
  let ?n = "nat (first_index P xs)"
  from first_index_found(1,2) [OF assms] have lt: "?n < length xs" by simp
  then show "xs = take ?n xs @ xs ! ?n # drop (Suc ?n) xs" by (rule id_take_nth_drop)
  show "\<not> list_ex P (take ?n xs)"
  proof
    assume "list_ex P (take ?n xs)"
    then obtain y where "y \<in> set (take ?n xs)" "P y" by (auto simp: list_ex_iff)
    then obtain j where "j < length (take ?n xs)" "take ?n xs ! j = y"
      by (auto simp: in_set_conv_nth)
    then have "j < ?n" "P (xs ! j)" using \<open>P y\<close> by simp_all
    with first_index_least [of j P xs] show False by simp
  qed
  from lt show "length (take ?n xs) = ?n" by simp
qed

lemma landmarks_after_delete:
  fixes A B :: "'p segment list"
  assumes nlx: "is_newline x"
    and noA: "\<not> list_ex is_newline A"
    and kw: "0 \<le> first_index is_select_keyword (A @ x # B)"
      "first_index is_select_keyword (A @ x # B) < int (length A)"
    and tg: "int (length A) < first_index is_target (A @ x # B)"
  shows "first_index is_select_keyword (A @ B) = first_index is_select_keyword (A @ x # B)"
    and "first_index is_newline (A @ B) = shift (int (length A)) (first_index is_newline B)"
    and "first_index is_target (A @ B) = first_index is_target (A @ x # B) - 1"
    and "first_index is_target B = first_index is_target (A @ x # B) - int (length A) - 1"
    and "filter is_target (A @ B) = filter is_target (A @ x # B)"
proof -
  from kw have "list_ex is_select_keyword A" by (rule first_index_in_prefix)
  then show "first_index is_select_keyword (A @ B) = first_index is_select_keyword (A @ x # B)"
    by (simp add: first_index_append)
  from noA show "first_index is_newline (A @ B) = shift (int (length A)) (first_index is_newline B)"
    by (simp add: first_index_append)
  from nlx have ntx: "\<not> is_target x" by (simp add: is_newline_def is_target_def)
  have noT: "\<not> list_ex is_target A"
  proof
    assume ex: "list_ex is_target A"
    then have "first_index is_target (A @ x # B) = first_index is_target A"
      by (simp add: first_index_append)
    moreover from ex have "first_index is_target A \<noteq> - 1" by (simp add: first_index_absent)
    from first_index_found(2) [OF this] have "first_index is_target A < int (length A)" .
    ultimately show False using tg by simp
  qed
  with ntx have full: "first_index is_target (A @ x # B) =
      shift (int (length A)) (shift 1 (first_index is_target B))"
    by (simp add: first_index_append first_index_Cons)
  with tg have fB: "first_index is_target B \<noteq> - 1"
    by (auto simp: shift_def split: if_splits)
  note ge = first_index_ge [of is_target B]
  from fB full ge show "first_index is_target B = first_index is_target (A @ x # B) - int (length A) - 1"
    by (auto simp: shift_def split: if_splits)
  from noT full fB ge show "first_index is_target (A @ B) = first_index is_target (A @ x # B) - 1"
    by (auto simp: first_index_append shift_def split: if_splits)
  from ntx show "filter is_target (A @ B) = filter is_target (A @ x # B)" by simp
qed

section \<open>The claims\<close>

text \<open>
  C6: the landmark scanner returns, on any clause, the summary of the
  specification: the number of select targets among the direct children, those
  children in document order, the index of the first SELECT keyword, of the
  first newline and of the first select target (\<open>-1\<close> when absent), and the index
  of the first whitespace child that comes after a newline child.
\<close>

theorem get_indexes_is_landmark_summary: "get_indexes c = landmark_summary c"
  by (rule get_indexes_summary)

theorem get_indexes_is_landmark_summary_witness:
  "get_indexes (clause [select_keyword 0, whitespace_at 6, newline_at 7, whitespace_at 8,
       column ''a'' 9, leaf ''comma'' '','' 10, newline_at 11, whitespace_at 12, column ''b'' 13]
       ''SELECT'') =
     \<lparr>cnt_select_targets = 2, select_idx = 0, first_new_line_idx = 2,
      first_select_target_idx = 4, first_whitespace_idx = 3,
      select_targets = [column ''a'' 9, column ''b'' 13]\<rparr>"
  using get_indexes_is_landmark_summary
    [of "clause [select_keyword 0, whitespace_at 6, newline_at 7, whitespace_at 8,
       column ''a'' 9, leaf ''comma'' '','' 10, newline_at 11, whitespace_at 12, column ''b'' 13]
       ''SELECT''"]
  by (simp add: landmark_defs sample_defs)

text \<open>
  C7: a clause without any select target among its direct children gets no
  issue, and the rule does not raise: whether the child list is empty, the
  SELECT keyword is missing or other landmarks are absent.
\<close>

theorem no_target_no_issue:
  "length (filter is_target (segments c)) = 0 \<Longrightarrow> eval adv c = Inr None"
  by (simp add: eval_by_landmarks landmark_summary_def)

theorem no_target_no_issue_witness:
  "length (filter is_target (segments (clause [] []))) = 0
   \<and> eval advance_by_chars (clause [] []) = Inr None
   \<and> length (filter is_target (segments (clause [newline_at 0, whitespace_at 1] []))) = 0
   \<and> eval advance_by_chars (clause [newline_at 0, whitespace_at 1] []) = Inr None"
  using no_target_no_issue [of "clause [] []" advance_by_chars]
    no_target_no_issue [of "clause [newline_at 0, whitespace_at 1] []" advance_by_chars]
  by (simp add: is_target_def sample_defs)

text \<open>
  C3: on a clause with two or more select targets the rule returns a violation
  with one create fix, a new newline anchored at the first select target, if
  and only if none of the clause's direct children is a newline; with a
  newline anywhere among them it returns no issue.
\<close>

theorem multiple_targets_flagged_iff_no_newline:
  assumes "is_type c ''select_clause''"
    and "2 \<le> length (filter is_target (segments c))"
  shows "eval adv c =
     (if list_ex is_newline (segments c) then Inr None
      else Inr (Some (LintResult c [LintFix ''create'' (hd (filter is_target (segments c)))
             (Some (make_newline (adv (pos_marker c) (raw c))))])))"
proof -
  from assms(2) have ne: "filter is_target (segments c) \<noteq> []" by auto
  from assms show ?thesis
    by (simp add: eval_by_landmarks cnt_landmark eval_multiple_by_children [OF ne])
qed

theorem multiple_targets_flagged_iff_no_newline_witness:
  "is_type scenario_D ''select_clause''
   \<and> 2 \<le> length (filter is_target (segments scenario_D))
   \<and> \<not> list_ex is_newline (segments scenario_D)
   \<and> eval advance_by_chars scenario_D =
       Inr (Some (LintResult scenario_D
         [LintFix ''create'' (column ''a'' 7) (Some (make_newline 10))]))
   \<and> is_type scenario_E ''select_clause''
   \<and> 2 \<le> length (filter is_target (segments scenario_E))
   \<and> list_ex is_newline (segments scenario_E)
   \<and> eval advance_by_chars scenario_E = Inr None"
  using multiple_targets_flagged_iff_no_newline [of scenario_D advance_by_chars]
    multiple_targets_flagged_iff_no_newline [of scenario_E advance_by_chars]
  by (simp add: sample_defs is_type_def is_target_def is_newline_def advance_by_chars_def
      eval_nat_numeral)

text \<open>
  C8: when the path for several targets emits its create fix, the new newline
  node carries the clause's own position marker advanced by the clause's whole
  raw text; the position of the anchor, the first select target, is not used.
\<close>

theorem inserted_newline_position:
  assumes "is_type c ''select_clause''"
    and "1 < cnt_select_targets (get_indexes c)"
    and "eval adv c = Inr (Some res)"
  shows "\<exists>ins. lint_fixes res = [LintFix ''create'' (hd (select_targets (get_indexes c))) (Some ins)]
           \<and> is_type ins ''newline''
           \<and> pos_marker ins = adv (pos_marker c) (raw c)"
proof -
  from assms(2) have ne: "filter is_target (segments c) \<noteq> []"
    by (auto simp add: get_indexes_summary cnt_landmark)
  from assms(1,2) have "eval adv c =
      eval_multiple_select_target_elements adv (landmark_summary c) c"
    by (simp add: eval_by_landmarks get_indexes_summary)
  with assms(3) have "res = LintResult c [LintFix ''create'' (hd (filter is_target (segments c)))
      (Some (make_newline (adv (pos_marker c) (raw c))))]"
    by (simp add: eval_multiple_by_children [OF ne] split: if_splits)
  then show ?thesis
    by (simp add: make_newline_kind get_indexes_summary landmark_summary_def)
qed

theorem inserted_newline_position_witness:
  "is_type scenario_D ''select_clause''
   \<and> 1 < cnt_select_targets (get_indexes scenario_D)
   \<and> eval advance_by_chars scenario_D =
       Inr (Some (LintResult scenario_D
         [LintFix ''create'' (column ''a'' 7) (Some (make_newline 10))]))
   \<and> (\<exists>ins. lint_fixes (LintResult scenario_D
                [LintFix ''create'' (column ''a'' 7) (Some (make_newline 10))]) =
              [LintFix ''create'' (hd (select_targets (get_indexes scenario_D))) (Some ins)]
            \<and> is_type ins ''newline''
            \<and> pos_marker ins = advance_by_chars (pos_marker scenario_D) (raw scenario_D))
   \<and> advance_by_chars (pos_marker scenario_D) (raw scenario_D) = 10
   \<and> pos_marker (column ''a'' 7) = 7"
  using inserted_newline_position
    [of scenario_D advance_by_chars
        "LintResult scenario_D [LintFix ''create'' (column ''a'' 7) (Some (make_newline 10))]"]
  by (simp add: run_defs sample_defs eval_nat_numeral)

text \<open>
  C10: every emitted fix refers to a node that exists.  Where the keyword index
  is below the index of the first newline, as it is whenever the path for a
  single target emits its delete fix, that index is a valid index into the
  clause's children and the child there is a newline; with more than one
  target counted the list of targets is not empty; so neither subscript can
  raise, and the rule returns a value on every segment.
\<close>

theorem emitted_fixes_reference_valid_nodes:
  "(select_idx (get_indexes c) < first_new_line_idx (get_indexes c) \<longrightarrow>
      0 \<le> first_new_line_idx (get_indexes c)
      \<and> first_new_line_idx (get_indexes c) < int (length (segments c))
      \<and> is_type (segments c ! nat (first_new_line_idx (get_indexes c))) ''newline''
      \<and> subscript (segments c) (first_new_line_idx (get_indexes c)) =
          Inr (segments c ! nat (first_new_line_idx (get_indexes c))))
   \<and> (1 < cnt_select_targets (get_indexes c) \<longrightarrow>
      select_targets (get_indexes c) \<noteq> []
      \<and> subscript (select_targets (get_indexes c)) 0 = Inr (hd (select_targets (get_indexes c))))
   \<and> (\<exists>res. eval adv c = Inr res)"
proof (intro conjI impI)
  assume lt: "select_idx (get_indexes c) < first_new_line_idx (get_indexes c)"
  then have lt': "select_idx (landmark_summary c) < first_new_line_idx (landmark_summary c)"
    by (simp add: get_indexes_summary)
  have nl: "first_new_line_idx (get_indexes c) = first_index is_newline (segments c)"
    by (simp add: get_indexes_summary landmark_summary_def)
  from first_newline_valid(1) [OF lt'] show "0 \<le> first_new_line_idx (get_indexes c)"
    by (simp add: nl)
  from first_newline_valid(2) [OF lt']
  show "first_new_line_idx (get_indexes c) < int (length (segments c))"
    by (simp add: nl)
  from first_newline_valid(3) [OF lt']
  show "is_type (segments c ! nat (first_new_line_idx (get_indexes c))) ''newline''"
    by (simp add: nl is_type_def is_newline_def)
  from first_newline_valid(1,2) [OF lt']
  show "subscript (segments c) (first_new_line_idx (get_indexes c)) =
      Inr (segments c ! nat (first_new_line_idx (get_indexes c)))"
    by (simp add: nl subscript_in_range)
next
  assume "1 < cnt_select_targets (get_indexes c)"
  then show "select_targets (get_indexes c) \<noteq> []"
    by (auto simp add: get_indexes_summary landmark_summary_def)
  then show "subscript (select_targets (get_indexes c)) 0 = Inr (hd (select_targets (get_indexes c)))"
    by (rule subscript_first)
next
  show "\<exists>res. eval adv c = Inr res"
  proof (cases "1 < cnt_select_targets (landmark_summary c)")
    case True
    then have "filter is_target (segments c) \<noteq> []" by (auto simp add: cnt_landmark)
    then show ?thesis
      by (simp add: eval_by_landmarks eval_single_by_children eval_multiple_by_children)
  next
    case False
    then show ?thesis
      by (simp add: eval_by_landmarks eval_single_by_children)
  qed
qed

theorem emitted_fixes_reference_valid_nodes_witness:
  "select_idx (get_indexes scenario_C) < first_new_line_idx (get_indexes scenario_C)
   \<and> first_new_line_idx (get_indexes scenario_C) = 1
   \<and> length (segments scenario_C) = 3
   \<and> subscript (segments scenario_C) (first_new_line_idx (get_indexes scenario_C)) =
       Inr (newline_at 6)
   \<and> 1 < cnt_select_targets (get_indexes scenario_D)
   \<and> subscript (select_targets (get_indexes scenario_D)) 0 = Inr (column ''a'' 7)
   \<and> (\<exists>res. eval advance_by_chars scenario_C = Inr res)"
  using emitted_fixes_reference_valid_nodes [of scenario_C advance_by_chars]
    emitted_fixes_reference_valid_nodes [of scenario_D advance_by_chars]
  by (simp add: run_defs sample_defs)

text \<open>
  C5: on a clause with two or more select targets and no newline child the
  rule proposes to create a newline before the first target; on any clause
  whose children are the old ones with that newline put immediately before the
  first target, the rule returns no issue.
\<close>

theorem insert_then_rescan_no_issue:
  assumes "is_type c ''select_clause''"
    and "2 \<le> length (filter is_target (segments c))"
    and "\<not> list_ex is_newline (segments c)"
    and "is_type c' ''select_clause''"
    and "segments c' = insert_before (nat (first_index is_target (segments c)))
           (make_newline (adv (pos_marker c) (raw c))) (segments c)"
  shows "eval adv c = Inr (Some (LintResult c
           [LintFix ''create'' (segments c ! nat (first_index is_target (segments c)))
              (Some (make_newline (adv (pos_marker c) (raw c))))]))
       \<and> eval adv' c' = Inr None"
proof
  from assms(2) have ne: "filter is_target (segments c) \<noteq> []" by auto
  from assms(1,2,3) show "eval adv c = Inr (Some (LintResult c
           [LintFix ''create'' (segments c ! nat (first_index is_target (segments c)))
              (Some (make_newline (adv (pos_marker c) (raw c))))]))"
    by (simp add: eval_by_landmarks cnt_landmark eval_multiple_by_children [OF ne]
        hd_filter_first_index [OF ne])
  have same: "filter is_target (segments c') = filter is_target (segments c)"
    by (simp add: assms(5) filter_insert_before make_newline_kind)
  with ne have ne': "filter is_target (segments c') \<noteq> []" by simp
  have "list_ex is_newline (segments c')"
    by (simp add: assms(5) list_ex_insert_before make_newline_kind)
  with assms(2,4) same show "eval adv' c' = Inr None"
    by (simp add: eval_by_landmarks cnt_landmark eval_multiple_by_children [OF ne'])
qed

theorem insert_then_rescan_no_issue_witness:
  "is_type scenario_D ''select_clause''
   \<and> 2 \<le> length (filter is_target (segments scenario_D))
   \<and> \<not> list_ex is_newline (segments scenario_D)
   \<and> eval advance_by_chars scenario_D =
       Inr (Some (LintResult scenario_D
         [LintFix ''create'' (column ''a'' 7) (Some (make_newline 10))]))
   \<and> insert_before (nat (first_index is_target (segments scenario_D))) (make_newline 10)
        (segments scenario_D) =
       [select_keyword 0, whitespace_at 6, make_newline 10, column ''a'' 7,
        leaf ''comma'' '','' 8, column ''b'' 9]
   \<and> eval advance_by_chars
        (clause [select_keyword 0, whitespace_at 6, make_newline 10, column ''a'' 7,
           leaf ''comma'' '','' 8, column ''b'' 9] (''SELECT '' @ [CHR 0x0A] @ ''a,b'')) =
       Inr None"
  using insert_then_rescan_no_issue
    [of scenario_D
      "clause [select_keyword 0, whitespace_at 6, make_newline 10, column ''a'' 7,
         leaf ''comma'' '','' 8, column ''b'' 9] (''SELECT '' @ [CHR 0x0A] @ ''a,b'')"
      advance_by_chars advance_by_chars]
  by (simp add: sample_defs is_type_def is_target_def is_newline_def advance_by_chars_def
      first_index_def insert_before_def eval_nat_numeral)

text \<open>
  C4: on a clause with exactly one select target, a wildcard expression among
  the direct children of that target makes the rule return no issue, wherever
  the newlines are.  Without one among the direct children the outcome is
  decided by the order of keyword, first newline and target alone, whatever
  lies deeper below the target: a wildcard further down does not exempt the
  clause.
\<close>

theorem single_target_wildcard_exempt:
  assumes "length (filter is_target (segments c)) = 1"
  shows "(target_has_wildcard (hd (filter is_target (segments c))) \<longrightarrow> eval adv c = Inr None)
     \<and> (is_type c ''select_clause''
          \<and> \<not> target_has_wildcard (hd (filter is_target (segments c))) \<longrightarrow>
        eval adv c =
          (if first_index is_select_keyword (segments c) < first_index is_newline (segments c)
              \<and> first_index is_newline (segments c) < first_index is_target (segments c)
           then Inr (Some (LintResult c
                  [LintFix ''delete'' (segments c ! nat (first_index is_newline (segments c))) None]))
           else Inr None))"
  using assms
  by (simp add: eval_by_landmarks cnt_landmark eval_single_by_children
      is_wildcard_single_target)

theorem single_target_wildcard_exempt_witness:
  "length (filter is_target (segments scenario_B)) = 1
   \<and> target_has_wildcard (hd (filter is_target (segments scenario_B)))
   \<and> eval advance_by_chars scenario_B = Inr None
   \<and> length (filter is_target (segments nested_wildcard)) = 1
   \<and> is_type nested_wildcard ''select_clause''
   \<and> \<not> target_has_wildcard (hd (filter is_target (segments nested_wildcard)))
   \<and> eval advance_by_chars nested_wildcard =
       Inr (Some (LintResult nested_wildcard [LintFix ''delete'' (newline_at 6) None]))"
  using single_target_wildcard_exempt [of scenario_B advance_by_chars]
    single_target_wildcard_exempt [of nested_wildcard advance_by_chars]
  by (simp add: sample_defs landmark_defs is_type_def)

text \<open>
  C9: the outcome never depends on the landmark \<open>first_whitespace_idx\<close>.  Neither
  decision function reads the field: with any other value in it they return
  the same outcome.  For two clauses whose scans agree in every field but that
  one, the outcome on the second is what the decision functions return for it
  from the summary of the first; and when the two also agree in the wildcard
  test, their outcomes are of the same kind: no issue for both, a delete fix
  for both or a create fix for both (the anchors are nodes of the one clause
  or the other).
\<close>

theorem whitespace_landmark_irrelevant:
  "eval_single_select_target_element (r\<lparr>first_whitespace_idx := v\<rparr>) c =
     eval_single_select_target_element r c
   \<and> eval_multiple_select_target_elements adv (r\<lparr>first_whitespace_idx := v\<rparr>) c =
     eval_multiple_select_target_elements adv r c
   \<and> (is_type c1 ''select_clause'' \<and> is_type c2 ''select_clause''
        \<and> get_indexes c2 = (get_indexes c1)\<lparr>first_whitespace_idx := w\<rparr> \<longrightarrow>
      eval adv c2 =
        (if cnt_select_targets (get_indexes c1) = 1
         then eval_single_select_target_element (get_indexes c1) c2
         else if 1 < cnt_select_targets (get_indexes c1)
         then eval_multiple_select_target_elements adv (get_indexes c1) c2
         else Inr None)
      \<and> (is_wildcard c1 = is_wildcard c2 \<longrightarrow>
           outcome_shape (eval adv c1) = outcome_shape (eval adv c2)))"
proof (intro conjI impI)
  show "eval_single_select_target_element (r\<lparr>first_whitespace_idx := v\<rparr>) c =
     eval_single_select_target_element r c"
    by (rule eval_single_ignores_whitespace_idx)
  show "eval_multiple_select_target_elements adv (r\<lparr>first_whitespace_idx := v\<rparr>) c =
     eval_multiple_select_target_elements adv r c"
    by (rule eval_multiple_ignores_whitespace_idx)
next
  assume h: "is_type c1 ''select_clause'' \<and> is_type c2 ''select_clause''
        \<and> get_indexes c2 = (get_indexes c1)\<lparr>first_whitespace_idx := w\<rparr>"
  then show "eval adv c2 =
        (if cnt_select_targets (get_indexes c1) = 1
         then eval_single_select_target_element (get_indexes c1) c2
         else if 1 < cnt_select_targets (get_indexes c1)
         then eval_multiple_select_target_elements adv (get_indexes c1) c2
         else Inr None)"
    by (simp add: eval_def Let_def eval_single_ignores_whitespace_idx
        eval_multiple_ignores_whitespace_idx)
next
  assume h: "is_type c1 ''select_clause'' \<and> is_type c2 ''select_clause''
        \<and> get_indexes c2 = (get_indexes c1)\<lparr>first_whitespace_idx := w\<rparr>"
    and wild: "is_wildcard c1 = is_wildcard c2"
  from h have eq: "landmark_summary c2 = (landmark_summary c1)\<lparr>first_whitespace_idx := w\<rparr>"
    by (simp add: get_indexes_summary)
  have "cnt_select_targets (landmark_summary c2) = cnt_select_targets (landmark_summary c1)"
    and "select_idx (landmark_summary c2) = select_idx (landmark_summary c1)"
    and "first_new_line_idx (landmark_summary c2) = first_new_line_idx (landmark_summary c1)"
    and "first_select_target_idx (landmark_summary c2) =
         first_select_target_idx (landmark_summary c1)"
    by (simp_all add: eq)
  with h wild show "outcome_shape (eval adv c1) = outcome_shape (eval adv c2)"
    by (simp only: outcome_shape_eval)
qed

theorem whitespace_landmark_irrelevant_witness:
  "is_type (clause [select_keyword 0, newline_at 6, whitespace_at 7, column ''a'' 8,
       whitespace_at 9] ''SELECT'') ''select_clause''
   \<and> is_type (clause [select_keyword 0, newline_at 6, leaf ''comment'' ''--'' 7,
       column ''a'' 8, whitespace_at 9] ''SELECT'') ''select_clause''
   \<and> first_whitespace_idx (get_indexes
      (clause [select_keyword 0, newline_at 6, whitespace_at 7, column ''a'' 8, whitespace_at 9]
         ''SELECT'')) = 2
   \<and> get_indexes
      (clause [select_keyword 0, newline_at 6, leaf ''comment'' ''--'' 7, column ''a'' 8,
         whitespace_at 9] ''SELECT'') =
     (get_indexes
      (clause [select_keyword 0, newline_at 6, whitespace_at 7, column ''a'' 8, whitespace_at 9]
         ''SELECT''))\<lparr>first_whitespace_idx := 4\<rparr>
   \<and> is_wildcard
      (clause [select_keyword 0, newline_at 6, whitespace_at 7, column ''a'' 8, whitespace_at 9]
         ''SELECT'') =
     is_wildcard
      (clause [select_keyword 0, newline_at 6, leaf ''comment'' ''--'' 7, column ''a'' 8,
         whitespace_at 9] ''SELECT'')
   \<and> outcome_shape (eval advance_by_chars
      (clause [select_keyword 0, newline_at 6, whitespace_at 7, column ''a'' 8, whitespace_at 9]
         ''SELECT'')) = Inr (Some [''delete''])
   \<and> outcome_shape (eval advance_by_chars
      (clause [select_keyword 0, newline_at 6, leaf ''comment'' ''--'' 7, column ''a'' 8,
         whitespace_at 9] ''SELECT'')) = Inr (Some [''delete''])"
  using whitespace_landmark_irrelevant
    [where adv = advance_by_chars and w = 4
       and ?c1.0 = "clause [select_keyword 0, newline_at 6, whitespace_at 7, column ''a'' 8,
         whitespace_at 9] ''SELECT''"
       and ?c2.0 = "clause [select_keyword 0, newline_at 6, leaf ''comment'' ''--'' 7,
         column ''a'' 8, whitespace_at 9] ''SELECT''"]
  by (simp add: run_defs sample_defs outcome_shape_def)




text \<open>
  C2 (as amended): on a clause with exactly one select target, no wildcard,
  and whose first newline child lies strictly between the SELECT keyword and
  the target, the rule returns a violation that deletes that first newline.
  On any clause whose children are the old ones without that newline, the
  rule returns no issue exactly when no further newline lies between the
  deleted one and the target.
\<close>

theorem first_newline_deleted_then_rescan:
  fixes c c' :: "'p segment"
  assumes sc: "is_type c ''select_clause''"
    and one: "length (filter is_target (segments c)) = 1"
    and nowild: "\<not> target_has_wildcard (hd (filter is_target (segments c)))"
    and kw0: "0 \<le> first_index is_select_keyword (segments c)"
    and kwnl: "first_index is_select_keyword (segments c) < first_index is_newline (segments c)"
    and nltg: "first_index is_newline (segments c) < first_index is_target (segments c)"
    and sc': "is_type c' ''select_clause''"
    and seg': "segments c' = delete_at (nat (first_index is_newline (segments c))) (segments c)"
  shows "eval adv c = Inr (Some (LintResult c
           [LintFix ''delete'' (segments c ! nat (first_index is_newline (segments c))) None]))
     \<and> is_newline (segments c ! nat (first_index is_newline (segments c)))
     \<and> (eval adv' c' = Inr None \<longleftrightarrow>
         \<not> list_ex is_newline
             (take (nat (first_index is_target (segments c))
                     - Suc (nat (first_index is_newline (segments c))))
                (drop (Suc (nat (first_index is_newline (segments c)))) (segments c))))"
proof -
  let ?xs = "segments c"
  let ?n = "nat (first_index is_newline ?xs)"
  let ?A = "take ?n ?xs"
  let ?x = "?xs ! ?n"
  let ?B = "drop (Suc ?n) ?xs"
  from kw0 kwnl have found: "first_index is_newline ?xs \<noteq> - 1" by simp
  note sp = split_at_first_index [OF found]
  have xs: "?A @ ?x # ?B = ?xs" by (rule sp(1) [symmetric])
  have lenA: "int (length ?A) = first_index is_newline ?xs"
    using sp(3) first_index_found(1) [OF found] by simp
  have nlx: "is_newline ?x" by (rule first_index_found(3) [OF found])
  have wild: "\<not> is_wildcard c" using one nowild by (simp add: is_wildcard_single_target)
  have first: "eval adv c = Inr (Some (LintResult c [LintFix ''delete'' ?x None]))"
    using sc one wild kwnl nltg
    by (simp add: eval_by_landmarks cnt_landmark eval_single_by_children)
  have kwA: "0 \<le> first_index is_select_keyword (?A @ ?x # ?B)"
    "first_index is_select_keyword (?A @ ?x # ?B) < int (length ?A)"
    using kw0 kwnl by (simp_all only: xs lenA)
  have tgA: "int (length ?A) < first_index is_target (?A @ ?x # ?B)"
    using nltg by (simp only: xs lenA)
  note lm = landmarks_after_delete [OF nlx sp(2) kwA tgA]
  have seg2: "segments c' = ?A @ ?B" using seg' by (simp add: delete_at_def)
  have k': "first_index is_select_keyword (segments c') = first_index is_select_keyword ?xs"
    using lm(1) by (simp only: seg2 xs)
  have n': "first_index is_newline (segments c') =
      shift (first_index is_newline ?xs) (first_index is_newline ?B)"
    using lm(2) by (simp only: seg2 lenA)
  have t': "first_index is_target (segments c') = first_index is_target ?xs - 1"
    using lm(3) by (simp only: seg2 xs)
  have tB: "first_index is_target ?B =
      first_index is_target ?xs - first_index is_newline ?xs - 1"
    using lm(4) by (simp only: xs lenA)
  have f': "filter is_target (segments c') = filter is_target ?xs"
    using lm(5) by (simp only: seg2 xs)
  have wild': "\<not> is_wildcard c'" using wild by (simp add: is_wildcard_by_targets f')
  have ev': "eval adv' c' = Inr None \<longleftrightarrow>
      \<not> (first_index is_select_keyword ?xs
            < shift (first_index is_newline ?xs) (first_index is_newline ?B)
         \<and> shift (first_index is_newline ?xs) (first_index is_newline ?B)
            < first_index is_target ?xs - 1)"
    using sc' one wild'
    by (simp add: eval_by_landmarks cnt_landmark eval_single_by_children f' k' n' t')
  have m: "nat (first_index is_target ?xs) - Suc ?n = nat (first_index is_target ?B)"
    using tB first_index_found(1) [OF found] nltg by simp
  have tk: "list_ex is_newline (take (nat (first_index is_target ?B)) ?B) \<longleftrightarrow>
      first_index is_newline ?B \<noteq> - 1
      \<and> first_index is_newline ?B < int (nat (first_index is_target ?B))"
    by (rule first_index_take_iff)
  have "eval adv' c' = Inr None \<longleftrightarrow>
      \<not> (first_index is_newline ?B \<noteq> - 1
         \<and> first_index is_newline ?B < int (nat (first_index is_target ?B)))"
    using kw0 kwnl nltg tB first_index_ge [of is_newline ?B]
    by (simp only: ev') (auto simp: shift_def)
  then have rescan: "eval adv' c' = Inr None \<longleftrightarrow>
      \<not> list_ex is_newline (take (nat (first_index is_target ?xs) - Suc ?n) ?B)"
    by (simp only: m tk)
  from first nlx rescan show ?thesis by simp
qed

theorem first_newline_deleted_then_rescan_witness:
  "is_type scenario_C ''select_clause''
   \<and> length (filter is_target (segments scenario_C)) = 1
   \<and> \<not> target_has_wildcard (hd (filter is_target (segments scenario_C)))
   \<and> first_index is_select_keyword (segments scenario_C) = 0
   \<and> first_index is_newline (segments scenario_C) = 1
   \<and> first_index is_target (segments scenario_C) = 2
   \<and> eval advance_by_chars scenario_C =
       Inr (Some (LintResult scenario_C [LintFix ''delete'' (newline_at 6) None]))
   \<and> delete_at 1 (segments scenario_C) = [select_keyword 0, column ''a'' 7]
   \<and> eval advance_by_chars (clause [select_keyword 0, column ''a'' 7] ''SELECTa'') = Inr None"
  using first_newline_deleted_then_rescan
    [of scenario_C "clause [select_keyword 0, column ''a'' 7] ''SELECTa''"
        advance_by_chars advance_by_chars]
  by (simp add: sample_defs landmark_defs is_type_def delete_at_def)

text \<open>
  C2 as stated fails: with two newlines between the keyword and the single
  target the rule deletes the first of them, and on the clause without it the
  rule flags the second newline instead of returning no issue.
\<close>

theorem delete_then_rescan_counterexample:
  "is_type two_newlines ''select_clause''
   \<and> segments two_newlines = [select_keyword 0, newline_at 6, newline_at 7, column ''a'' 8]
   \<and> length (filter is_target (segments two_newlines)) = 1
   \<and> \<not> is_wildcard two_newlines
   \<and> eval advance_by_chars two_newlines =
       Inr (Some (LintResult two_newlines [LintFix ''delete'' (newline_at 6) None]))
   \<and> delete_at 1 (segments two_newlines) = [select_keyword 0, newline_at 7, column ''a'' 8]
   \<and> eval advance_by_chars
        (clause [select_keyword 0, newline_at 7, column ''a'' 8] (''SELECT'' @ [CHR 0x0A] @ ''a'')) =
       Inr (Some (LintResult
         (clause [select_keyword 0, newline_at 7, column ''a'' 8] (''SELECT'' @ [CHR 0x0A] @ ''a''))
         [LintFix ''delete'' (newline_at 7) None]))
   \<and> eval advance_by_chars
        (clause [select_keyword 0, newline_at 7, column ''a'' 8] (''SELECT'' @ [CHR 0x0A] @ ''a''))
       \<noteq> Inr None"
  by (simp add: run_defs sample_defs is_target_def delete_at_def)

end
